theory Spec2Isabelle
  imports Complex_Main "HOL-Library.Multiset" "HOL-Library.AList"
begin

section \<open>Shared data model\<close>

text \<open>
  Python floats are modelled as \<^typ>\<open>real\<close>, Python ints as \<^typ>\<open>int\<close> (counts and
  list lengths as \<^typ>\<open>nat\<close>), strings as \<^typ>\<open>string\<close>. Every exception the modelled
  code can raise is a value of \<open>py_error\<close>; a function that can raise returns
  \<open>py_error + 'a\<close> with \<open>Inl\<close> for the exception.
\<close>

datatype py_error = KeyError | IndexError | TypeError | AttributeError

text \<open>
  The values stored in a passage dictionary. The loaders and the retriever store strings
  (the retrieval score too, as \<open>str(s)\<close>); the retrieval-set poisoner stores the booleans
  \<open>True\<close> and \<open>False\<close> under \<open>is_poison\<close>.
\<close>

datatype pyval = PStr string | PBool bool

type_synonym passage = "string \<rightharpoonup> pyval"

text \<open>\<open>p.get(k, d)\<close>\<close>

definition dict_get :: "('k \<rightharpoonup> 'v) \<Rightarrow> 'k \<Rightarrow> 'v \<Rightarrow> 'v" where
  "dict_get p k d = (case p k of None \<Rightarrow> d | Some v \<Rightarrow> v)"

text \<open>The slice \<open>xs[:k]\<close>; a negative \<open>k\<close> drops the last \<open>-k\<close> elements.\<close>

definition py_prefix :: "int \<Rightarrow> 'a list \<Rightarrow> 'a list" where
  "py_prefix k xs = (if k \<ge> 0 then take (nat k) xs else take (length xs - nat (- k)) xs)"

text \<open>
  Python's truth value of \<open>p.get(key)\<close>: false for a missing entry, the boolean itself,
  and true for a non-empty string.
\<close>

fun truthy :: "pyval option \<Rightarrow> bool" where
  "truthy None = False"
| "truthy (Some (PBool b)) = b"
| "truthy (Some (PStr s)) = (s \<noteq> [])"

section \<open>Decision engine (experiment.py)\<close>

text \<open>
  \<open>RAGTrustPipeline.predict_label_from_verification\<close>. The pipeline attribute
  \<open>decision_params\<close> may be absent (\<open>getattr\<close> with a default dictionary), and every
  entry of both dictionaries is read with \<open>.get(key, default)\<close>, so each of them is
  optional in the model. The strengths are numbers and the flags booleans, as the verifier
  produces them, so that \<open>float(...)\<close> and \<open>bool(...)\<close> return their argument and the
  function has no failing branch.
\<close>

record decision_params =
  min_strength :: "real option"
  margin :: "real option"
  conflict_nei :: "bool option"

record verification_dict =
  get_support_strength :: "real option"
  get_contradiction_strength :: "real option"
  get_conflict :: "bool option"

definition default_decision_params :: decision_params where
  "default_decision_params =
     \<lparr>min_strength = Some 0.3, margin = Some 0.10, conflict_nei = Some True\<rparr>"

text \<open>\<open>d.get(key, default)\<close> on an optional entry.\<close>

definition get_or :: "'a option \<Rightarrow> 'a \<Rightarrow> 'a" where
  "get_or entry d = (case entry of None \<Rightarrow> d | Some x \<Rightarrow> x)"

definition predict_label_from_verification ::
    "decision_params option \<Rightarrow> verification_dict \<Rightarrow> string" where
  "predict_label_from_verification attr verification =
     (let params = (case attr of None \<Rightarrow> default_decision_params | Some d \<Rightarrow> d);
          s_ent = get_or (get_support_strength verification) 0.0;
          s_con = get_or (get_contradiction_strength verification) 0.0;
          conflict = get_or (get_conflict verification) False;
          min_str = get_or (min_strength params) 0.3;
          marg = get_or (margin params) 0.10;
          c_nei = get_or (conflict_nei params) True
      in if conflict \<and> c_nei then ''NOT ENOUGH INFO''
         else if s_con \<ge> min_str \<and> (s_con - s_ent) > marg then ''REFUTES''
         else if s_ent \<ge> min_str \<and> (s_ent - s_con) > marg then ''SUPPORTS''
         else ''NOT ENOUGH INFO'')"

section \<open>Multi-source verifier (verifier.py)\<close>

text \<open>The dictionary returned by \<open>NLIModel.score\<close>: always the same three keys.\<close>

record nli_scores =
  contradiction :: real
  neutral_score :: real
  entailment :: real

text \<open>
  The verifier object. The entailment model is external: \<open>nli premise hypothesis\<close> stands
  for \<open>self.nli.score(premise, hypothesis)\<close>; the premise is whatever the passage stores
  under \<open>text\<close>.
\<close>

record verifier =
  nli :: "pyval \<Rightarrow> string \<Rightarrow> nli_scores"
  thr_con :: real
  thr_ent :: real
  top_n_multi :: int

definition vote_from_score :: "verifier \<Rightarrow> nli_scores \<Rightarrow> string" where
  "vote_from_score self sc =
     (let e = entailment sc; c = contradiction sc
      in if c \<ge> thr_con self \<and> c > e then ''contradict''
         else if e \<ge> thr_ent self \<and> e > c then ''entail''
         else ''neutral'')"

text \<open>The \<open>votes\<close> dictionary, created with exactly the keys entail, contradict, neutral.\<close>

record votes =
  entail :: nat
  contradict :: nat
  neutral :: nat

text \<open>\<open>votes[vote] += 1\<close>: a key other than the three raises KeyError.\<close>

definition bump_vote :: "votes \<Rightarrow> string \<Rightarrow> py_error + votes" where
  "bump_vote vs v =
     (if v = ''entail'' then Inr (vs\<lparr>entail := entail vs + 1\<rparr>)
      else if v = ''contradict'' then Inr (vs\<lparr>contradict := contradict vs + 1\<rparr>)
      else if v = ''neutral'' then Inr (vs\<lparr>neutral := neutral vs + 1\<rparr>)
      else Inl KeyError)"

text \<open>One record of \<open>details\<close> in single mode.\<close>

record detail =
  d_mode :: string
  d_title :: pyval
  d_sent_id :: pyval
  d_text :: pyval
  d_nli :: nli_scores
  d_vote :: string
  d_is_poison :: pyval

record verification_result =
  votes :: votes
  conflict :: bool
  support_strength :: real
  contradiction_strength :: real
  details :: "detail list"

text \<open>The record appended to \<open>details\<close> for passage \<open>p\<close> with scores \<open>sc\<close>.\<close>

definition single_detail :: "passage \<Rightarrow> nli_scores \<Rightarrow> string \<Rightarrow> detail" where
  "single_detail p sc vote =
     \<lparr>d_mode = ''single'',
      d_title = dict_get p ''title'' (PStr ''''),
      d_sent_id = dict_get p ''sent_id'' (PStr ''''),
      d_text = dict_get p ''text'' (PStr ''''),
      d_nli = sc,
      d_vote = vote,
      d_is_poison = dict_get p ''is_poison'' (PStr ''0'')\<rparr>"

text \<open>
  The \<open>for p in passages\<close> loop of \<open>_analyze_single\<close>, threading \<open>votes\<close> and
  \<open>details\<close>. \<open>p["text"]\<close> raises KeyError when the passage has no text.
\<close>

fun single_loop ::
    "verifier \<Rightarrow> string \<Rightarrow> passage list \<Rightarrow> votes \<Rightarrow> detail list \<Rightarrow> py_error + (votes \<times> detail list)" where
  "single_loop self query [] vs ds = Inr (vs, ds)"
| "single_loop self query (p # ps) vs ds =
     (case p ''text'' of
        None \<Rightarrow> Inl KeyError
      | Some t \<Rightarrow>
          (let sc = nli self t query;
               vote = vote_from_score self sc
           in case bump_vote vs vote of
                Inl e \<Rightarrow> Inl e
              | Inr vs' \<Rightarrow> single_loop self query ps vs' (ds @ [single_detail p sc vote])))"

definition analyze_single :: "verifier \<Rightarrow> string \<Rightarrow> passage list \<Rightarrow> py_error + verification_result" where
  "analyze_single self query passages =
     (case single_loop self query passages \<lparr>entail = 0, contradict = 0, neutral = 0\<rparr> [] of
        Inl e \<Rightarrow> Inl e
      | Inr (vs, ds) \<Rightarrow>
          Inr \<lparr>votes = vs,
               conflict = (entail vs > 0 \<and> contradict vs > 0),
               support_strength = real (entail vs) / real (max 1 (length passages)),
               contradiction_strength = real (contradict vs) / real (max 1 (length passages)),
               details = ds\<rparr>)"

text \<open>\<open>" ".join(parts)\<close>: a part that is not a string raises TypeError.\<close>

fun py_join :: "string \<Rightarrow> pyval list \<Rightarrow> py_error + string" where
  "py_join sep [] = Inr []"
| "py_join sep (PBool b # xs) = Inl TypeError"
| "py_join sep [PStr s] = Inr s"
| "py_join sep (PStr s # x # xs) =
     (case py_join sep (x # xs) of Inl e \<Rightarrow> Inl e | Inr r \<Rightarrow> Inr (s @ sep @ r))"

text \<open>
  The one record of \<open>details\<close> in multi mode, and the result of multi mode, whose two
  strengths are the integer vote counts themselves.
\<close>

record multi_detail =
  m_mode :: string
  m_text :: string
  m_nli :: nli_scores
  m_vote :: string

record multi_verification_result =
  m_votes :: votes
  m_conflict :: bool
  m_support_strength :: int
  m_contradiction_strength :: int
  m_details :: "multi_detail list"

text \<open>
  \<open>_analyze_multi\<close>: the texts of the first \<open>top_n_multi\<close> passages that have a
  non-empty one, joined by spaces and scored once.
\<close>

definition analyze_multi ::
    "verifier \<Rightarrow> string \<Rightarrow> passage list \<Rightarrow> py_error + multi_verification_result" where
  "analyze_multi self query passages =
     (let top = py_prefix (top_n_multi self) passages;
          parts = map (\<lambda>p. dict_get p ''text'' (PStr '''')) (filter (\<lambda>p. truthy (p ''text'')) top)
      in case py_join '' '' parts of
           Inl e \<Rightarrow> Inl e
         | Inr aggregated_text \<Rightarrow>
             (let sc = nli self (PStr aggregated_text) query;
                  vote = vote_from_score self sc
              in case bump_vote \<lparr>entail = 0, contradict = 0, neutral = 0\<rparr> vote of
                   Inl e \<Rightarrow> Inl e
                 | Inr vs \<Rightarrow>
                     Inr \<lparr>m_votes = vs,
                          m_conflict = (entail vs > 0 \<and> contradict vs > 0),
                          m_support_strength = int (entail vs),
                          m_contradiction_strength = int (contradict vs),
                          m_details = [\<lparr>m_mode = ''multi'', m_text = aggregated_text,
                                        m_nli = sc, m_vote = vote\<rparr>]\<rparr>))"

section \<open>Evidence fusion (hybrid.py)\<close>

text \<open>The composite key \<open>(p.get("title",""), p.get("sent_id",""), p.get("text",""))\<close>.\<close>

definition passage_key :: "passage \<Rightarrow> pyval \<times> pyval \<times> pyval" where
  "passage_key p =
     (dict_get p ''title'' (PStr ''''), dict_get p ''sent_id'' (PStr ''''),
      dict_get p ''text'' (PStr ''''))"

text \<open>
  The dictionary \<open>best\<close> is an association list in insertion order, as a Python dict
  iterates: \<^const>\<open>AList.update\<close> replaces the value of a key where it stands and appends a
  new key at the end. One iteration of \<open>for s, p in scored\<close>:
\<close>

definition merge_step ::
    "((pyval \<times> pyval \<times> pyval) \<times> real \<times> passage) list \<Rightarrow> real \<times> passage
       \<Rightarrow> ((pyval \<times> pyval \<times> pyval) \<times> real \<times> passage) list" where
  "merge_step best sp =
     (let key = passage_key (snd sp)
      in case map_of best key of
           None \<Rightarrow> AList.update key sp best
         | Some b \<Rightarrow> if fst sp > fst b then AList.update key sp best else best)"

definition merge_best ::
    "(real \<times> passage) list \<Rightarrow> ((pyval \<times> pyval \<times> pyval) \<times> real \<times> passage) list" where
  "merge_best scored = foldl merge_step [] scored"

text \<open>
  \<open>merged = sorted(best.values(), key=lambda x: x[0], reverse=True)[:k]\<close>. Python's sort
  is stable, also with \<open>reverse=True\<close>: entries of equal score keep their order. That is the
  stable ascending sort on the negated score.
\<close>

definition fuse :: "(real \<times> passage) list \<Rightarrow> int \<Rightarrow> (real \<times> passage) list" where
  "fuse scored k = py_prefix k (sort_key (\<lambda>x. - fst x) (map snd (merge_best scored)))"

text \<open>
  The two retrieval sources are external; a disabled source is \<open>None\<close>. \<open>src query k\<close>
  stands for \<open>src.retrieve(query, k)\<close>.
\<close>

record hybrid_retriever =
  bm25 :: "(string \<Rightarrow> int \<Rightarrow> (real \<times> passage) list) option"
  dense :: "(string \<Rightarrow> int \<Rightarrow> (real \<times> passage) list) option"

definition collect_scored :: "hybrid_retriever \<Rightarrow> string \<Rightarrow> int \<Rightarrow> (real \<times> passage) list" where
  "collect_scored self query k =
     (case bm25 self of None \<Rightarrow> [] | Some r \<Rightarrow> r query k) @
     (case dense self of None \<Rightarrow> [] | Some r \<Rightarrow> r query k)"

text \<open>
  \<open>q = dict(p); q["score"] = str(s)\<close>: the score is attached as a string. \<open>float_str\<close>
  stands for Python's \<open>str\<close> on floats.
\<close>

definition attach_score :: "(real \<Rightarrow> string) \<Rightarrow> real \<times> passage \<Rightarrow> passage" where
  "attach_score float_str sp = (snd sp)(''score'' \<mapsto> PStr (float_str (fst sp)))"

definition retrieve :: "(real \<Rightarrow> string) \<Rightarrow> hybrid_retriever \<Rightarrow> string \<Rightarrow> int \<Rightarrow> passage list" where
  "retrieve float_str self query k =
     map (attach_score float_str) (fuse (collect_scored self query k) k)"

section \<open>Poison injector (synthetic.py, strategies.py)\<close>

text \<open>
  \<open>make_contradictory_passage\<close>, on the characters of ASCII text: \<open>strip()\<close> removes
  leading and trailing white space, \<open>lower()\<close> maps A to Z to lower case, \<open>in\<close> looks
  for a substring and \<open>replace(" not ", " ")\<close> rewrites the occurrences from left to
  right without overlap. The test is made on the lowered text and the replacement on the
  text itself.
\<close>

definition py_isspace :: "char \<Rightarrow> bool" where
  "py_isspace c \<longleftrightarrow> (of_char c :: nat) \<in> {9, 10, 11, 12, 13, 28, 29, 30, 31, 32}"

definition py_strip :: "string \<Rightarrow> string" where
  "py_strip s = rev (dropWhile py_isspace (rev (dropWhile py_isspace s)))"

definition py_lower :: "string \<Rightarrow> string" where
  "py_lower s =
     map (\<lambda>c. if 65 \<le> (of_char c :: nat) \<and> (of_char c :: nat) \<le> 90
               then char_of (of_char c + (32 :: nat)) else c) s"

fun py_in :: "string \<Rightarrow> string \<Rightarrow> bool" where
  "py_in sub [] = (sub = [])"
| "py_in sub (c # cs) = (take (length sub) (c # cs) = sub \<or> py_in sub cs)"

fun replace_not :: "string \<Rightarrow> string" where
  "replace_not [] = []"
| "replace_not (c # cs) =
     (if take 5 (c # cs) = '' not '' then CHR '' '' # replace_not (drop 4 cs)
      else c # replace_not cs)"

definition make_contradictory_passage :: "string \<Rightarrow> string" where
  "make_contradictory_passage text =
     (let t = py_strip text
      in if t = [] then ''This statement is false.''
         else if py_in '' not '' (py_lower t) then replace_not t
         else ''It is not true that: '' @ t)"

text \<open>
  The two poisoning functions below take the text heuristic as their argument \<open>mcp\<close>, so
  that what is proved of them holds whatever the heuristic returns, on any text. The
  sampler is their other argument: \<open>sample sd n k\<close> stands for
  \<open>random.Random(sd).sample(range(n), k)\<close>, the generator being created from the seed
  inside each call.
\<close>

type_synonym sampler = "int \<Rightarrow> nat \<Rightarrow> nat \<Rightarrow> nat list"

text \<open>\<open>int(x)\<close> on a float truncates towards zero.\<close>

definition py_int :: "real \<Rightarrow> int" where
  "py_int x = (if x \<ge> 0 then \<lfloor>x\<rfloor> else \<lceil>x\<rceil>)"

text \<open>
  The loop \<open>for i in idxs\<close> over the copied list \<open>out\<close>; \<open>step out i\<close> is the loop body
  and an exception in it leaves the function.
\<close>

fun poison_loop ::
    "(passage list \<Rightarrow> nat \<Rightarrow> py_error + passage list) \<Rightarrow> passage list \<Rightarrow> nat list
       \<Rightarrow> py_error + passage list" where
  "poison_loop step out [] = Inr out"
| "poison_loop step out (i # idxs) =
     (case step out i of Inl e \<Rightarrow> Inl e | Inr out' \<Rightarrow> poison_loop step out' idxs)"

text \<open>
  The body of the loop in \<open>inject_synthetic_poison\<close>. \<open>out[i]["text"]\<close> and
  \<open>out[i]["doc_id"]\<close> raise KeyError on a missing key; \<open>.strip()\<close> of a non-string
  raises AttributeError and a non-string \<open>+ "__POISON"\<close> raises TypeError.
\<close>

definition poison_retrieved_at :: "(string \<Rightarrow> string) \<Rightarrow> passage list \<Rightarrow> nat \<Rightarrow> py_error + passage list" where
  "poison_retrieved_at mcp out i =
     (if i \<ge> length out then Inl IndexError
      else case (out ! i) ''text'' of
             None \<Rightarrow> Inl KeyError
           | Some (PBool b) \<Rightarrow> Inl AttributeError
           | Some (PStr t) \<Rightarrow>
               (let p1 = (out ! i)(''text'' \<mapsto> PStr (mcp t),
                                   ''is_poison'' \<mapsto> PBool True,
                                   ''source'' \<mapsto> PStr ''poison'')
                in case p1 ''doc_id'' of
                     None \<Rightarrow> Inl KeyError
                   | Some (PBool b) \<Rightarrow> Inl TypeError
                   | Some (PStr d) \<Rightarrow> Inr (out[i := p1(''doc_id'' \<mapsto> PStr (d @ ''__POISON''))])))"

text \<open>
  \<open>n_poison = max(1, int(len(out) * rate))\<close> and the indices (\<open>r\<close> is the rate,
  \<open>sd\<close> the seed)
  \<open>rng.sample(range(len(out)), k=max(0, min(n_poison, len(out))))\<close>.
\<close>

definition inject_idxs :: "sampler \<Rightarrow> nat \<Rightarrow> real \<Rightarrow> int \<Rightarrow> nat list" where
  "inject_idxs sample n r sd =
     (let n_poison = max 1 (py_int (real n * r))
      in sample sd n (nat (max 0 (min n_poison (int n)))))"

text \<open>\<open>out = [dict(p, is_poison=False) for p in retrieved]\<close>, then the loop.\<close>

definition inject_synthetic_poison ::
    "sampler \<Rightarrow> (string \<Rightarrow> string) \<Rightarrow> passage list \<Rightarrow> real \<Rightarrow> int \<Rightarrow> py_error + passage list" where
  "inject_synthetic_poison sample mcp retrieved r sd =
     (let out = map (\<lambda>p. p(''is_poison'' \<mapsto> PBool False)) retrieved;
          idxs = inject_idxs sample (length out) r sd
      in poison_loop (poison_retrieved_at mcp) out idxs)"

record poisoner =
  strategy :: string
  rate :: real
  seed :: int

text \<open>\<open>Poisoner.__init__\<close> stores its three arguments and checks nothing.\<close>

definition Poisoner :: "string \<Rightarrow> real \<Rightarrow> int \<Rightarrow> poisoner" where
  "Poisoner st r sd = \<lparr>strategy = st, rate = r, seed = sd\<rparr>"

text \<open>\<open>Poisoner.apply\<close>\<close>

definition Poisoner_apply ::
    "sampler \<Rightarrow> (string \<Rightarrow> string) \<Rightarrow> poisoner \<Rightarrow> passage list \<Rightarrow> py_error + passage list" where
  "Poisoner_apply sample mcp self retrieved =
     (if rate self \<le> 0 then Inr retrieved
      else if strategy self = ''contradictory_passage''
           then inject_synthetic_poison sample mcp retrieved (rate self) (seed self)
      else Inr retrieved)"

text \<open>
  The body of the loop in \<open>Poisoner.apply_to_corpus\<close>: both reads use \<open>.get\<close> with the
  default \<open>""\<close>, and no \<open>source\<close> is written.
\<close>

definition poison_corpus_at :: "(string \<Rightarrow> string) \<Rightarrow> passage list \<Rightarrow> nat \<Rightarrow> py_error + passage list" where
  "poison_corpus_at mcp out i =
     (if i \<ge> length out then Inl IndexError
      else case dict_get (out ! i) ''text'' (PStr '''') of
             PBool b \<Rightarrow> Inl AttributeError
           | PStr t \<Rightarrow>
               (let p1 = (out ! i)(''text'' \<mapsto> PStr (mcp t), ''is_poison'' \<mapsto> PStr ''1'')
                in case dict_get p1 ''doc_id'' (PStr '''') of
                     PBool b \<Rightarrow> Inl TypeError
                   | PStr d \<Rightarrow> Inr (out[i := p1(''doc_id'' \<mapsto> PStr (d @ ''__POISON''))])))"

text \<open>\<open>n_poison = int(len(out) * self.rate)\<close>, with no lower bound of one.\<close>

definition corpus_idxs :: "sampler \<Rightarrow> nat \<Rightarrow> real \<Rightarrow> int \<Rightarrow> nat list" where
  "corpus_idxs sample n r sd =
     (let n_poison = py_int (real n * r)
      in sample sd n (nat (max 0 (min n_poison (int n)))))"

text \<open>\<open>out = [dict(p) for p in corpus]\<close> copies the entries as they are.\<close>

definition Poisoner_apply_to_corpus ::
    "sampler \<Rightarrow> (string \<Rightarrow> string) \<Rightarrow> poisoner \<Rightarrow> passage list \<Rightarrow> py_error + passage list" where
  "Poisoner_apply_to_corpus sample mcp self corpus =
     (if rate self \<le> 0 then Inr corpus
      else (let out = map (\<lambda>p. p) corpus;
                idxs = corpus_idxs sample (length out) (rate self) (seed self)
            in poison_loop (poison_corpus_at mcp) out idxs))"

text \<open>
  What \<open>random.sample(population, k)\<close> guarantees for \<open>k\<close> up to the population size:
  \<open>k\<close> positions of the population, no position twice.
\<close>

definition draws_without_replacement :: "sampler \<Rightarrow> bool" where
  "draws_without_replacement sample \<longleftrightarrow>
     (\<forall>sd n k. k \<le> n \<longrightarrow>
        length (sample sd n k) = k \<and> distinct (sample sd n k) \<and> set (sample sd n k) \<subseteq> {..<n})"


section \<open>Metrics aggregator (runner.py)\<close>

text \<open>
  A result row as \<open>aggregate\<close> reads it: \<open>r.get(k)\<close> is \<open>None\<close> for a key that is
  missing (or stored as \<open>None\<close>) and a number otherwise.
\<close>

type_synonym row = "string \<rightharpoonup> real"

text \<open>\<open>vals = [r.get(k) for r in results if r.get(k) is not None]\<close>\<close>

definition metric_vals :: "string \<Rightarrow> row list \<Rightarrow> real list" where
  "metric_vals k results = List.map_filter (\<lambda>r. r k) results"

fun aggregate_loop :: "string list \<Rightarrow> row list \<Rightarrow> (string \<rightharpoonup> real) \<Rightarrow> (string \<rightharpoonup> real)" where
  "aggregate_loop [] results out = out"
| "aggregate_loop (k # ks) results out =
     (let vals = metric_vals k results
      in aggregate_loop ks results
           (if vals \<noteq> [] then out(k \<mapsto> sum_list vals / real (length vals)) else out))"

definition aggregate :: "row list \<Rightarrow> (string \<rightharpoonup> real)" where
  "aggregate results =
     (if results = [] then Map.empty
      else aggregate_loop [''acc'', ''hallucination'', ''self_consistency''] results Map.empty)"

section \<open>Concrete inputs\<close>

text \<open>
  Stand-ins for the external parts, used to run the model on concrete inputs: a sampler
  that draws the first \<open>k\<close> indices whatever the seed, and an entailment model with a
  fixed answer.
\<close>

definition first_k_sampler :: sampler where
  "first_k_sampler sd n k = [0..<k]"

definition entailing_verifier :: verifier where
  "entailing_verifier =
     \<lparr>nli = (\<lambda>t q. \<lparr>contradiction = 0.02, neutral_score = 0.08, entailment = 0.9\<rparr>),
      thr_con = 0.55, thr_ent = 0.55, top_n_multi = 5\<rparr>"

definition paris_passage :: passage where
  "paris_passage =
     [''doc_id'' \<mapsto> PStr ''Paris'', ''title'' \<mapsto> PStr ''Paris'', ''sent_id'' \<mapsto> PStr ''0'',
      ''text'' \<mapsto> PStr ''Paris is the capital of France.'']"

definition rome_passage :: passage where
  "rome_passage =
     [''doc_id'' \<mapsto> PStr ''Rome'', ''title'' \<mapsto> PStr ''Rome'', ''sent_id'' \<mapsto> PStr ''0'',
      ''text'' \<mapsto> PStr ''Rome is the capital of Italy.'']"


text \<open>Two retrieval sources that rank the two passages in opposite orders.\<close>

definition lexical_source :: "string \<Rightarrow> int \<Rightarrow> (real \<times> passage) list" where
  "lexical_source query k = [(1, paris_passage), (1 / 2, rome_passage)]"

definition dense_source :: "string \<Rightarrow> int \<Rightarrow> (real \<times> passage) list" where
  "dense_source query k = [(2, rome_passage), (7 / 10, paris_passage)]"

definition two_source_retriever :: hybrid_retriever where
  "two_source_retriever = \<lparr>bm25 = Some lexical_source, dense = Some dense_source\<rparr>"

definition score_str :: "real \<Rightarrow> string" where
  "score_str s = (if s = 2 then ''2.0'' else if s = 1 then ''1.0'' else ''other'')"

section \<open>Decision engine: properties\<close>

text \<open>
  C1. With every parameter and every signal given, the decision engine returns the label of
  the first matching rule: NOT ENOUGH INFO when conflict and conflict_nei; else REFUTES when
  c >= min_strength and c - s > margin; else SUPPORTS when s >= min_strength and
  s - c > margin; else NOT ENOUGH INFO. At c = 0.9, s = 0.1, min_strength = 0.3,
  margin = 0.1 without conflict the label is REFUTES, and at c = 0.5, s = 0.45 it is
  NOT ENOUGH INFO. (The code spells the third label with spaces.)
\<close>

theorem decision_first_matching_rule:
  "predict_label_from_verification
       (Some \<lparr>min_strength = Some m, margin = Some g, conflict_nei = Some cn\<rparr>)
       \<lparr>get_support_strength = Some s, get_contradiction_strength = Some c, get_conflict = Some cf\<rparr>
     = (if cf \<and> cn then ''NOT ENOUGH INFO''
        else if c \<ge> m \<and> c - s > g then ''REFUTES''
        else if s \<ge> m \<and> s - c > g then ''SUPPORTS''
        else ''NOT ENOUGH INFO'')
   \<and> predict_label_from_verification
       (Some \<lparr>min_strength = Some 0.3, margin = Some 0.1, conflict_nei = Some cn\<rparr>)
       \<lparr>get_support_strength = Some 0.1, get_contradiction_strength = Some 0.9, get_conflict = Some False\<rparr>
     = ''REFUTES''
   \<and> predict_label_from_verification
       (Some \<lparr>min_strength = Some 0.3, margin = Some 0.1, conflict_nei = Some cn\<rparr>)
       \<lparr>get_support_strength = Some 0.45, get_contradiction_strength = Some 0.5, get_conflict = Some cf\<rparr>
     = ''NOT ENOUGH INFO''"
  by (simp add: predict_label_from_verification_def get_or_def Let_def)

theorem decision_first_matching_rule_witness:
  "predict_label_from_verification
       (Some \<lparr>min_strength = Some 0.3, margin = Some 0.1, conflict_nei = Some True\<rparr>)
       \<lparr>get_support_strength = Some 1, get_contradiction_strength = Some 0, get_conflict = Some False\<rparr>
     = ''SUPPORTS''"
  using decision_first_matching_rule [of "0.3" "0.1" True 1 0 False]
  by simp



section \<open>Verifier: properties\<close>

lemma vote_from_score_cases:
  "vote_from_score self sc = ''entail'' \<or> vote_from_score self sc = ''contradict''
     \<or> vote_from_score self sc = ''neutral''"
  by (simp add: vote_from_score_def Let_def)

lemma bump_vote_ok:
  "\<exists>vs1. bump_vote vs (vote_from_score self sc) = Inr vs1
     \<and> entail vs1 + contradict vs1 + neutral vs1 = entail vs + contradict vs + neutral vs + 1"
  using vote_from_score_cases [of self sc] by (auto simp: bump_vote_def)

lemma single_loop_ok:
  "\<forall>p\<in>set ps. ''text'' \<in> dom p \<Longrightarrow>
   \<exists>vs'. single_loop self q ps vs ds =
       Inr (vs', ds @ map (\<lambda>p. single_detail p (nli self (the (p ''text'')) q)
                                 (vote_from_score self (nli self (the (p ''text'')) q))) ps)
      \<and> entail vs' + contradict vs' + neutral vs' = entail vs + contradict vs + neutral vs + length ps"
proof (induction ps arbitrary: vs ds)
  case Nil
  then show ?case by simp
next
  case (Cons p ps)
  from Cons.prems obtain t where t: "p ''text'' = Some t" by auto
  let ?sc = "nli self t q"
  let ?vote = "vote_from_score self ?sc"
  obtain vs1 where b: "bump_vote vs ?vote = Inr vs1"
    and s: "entail vs1 + contradict vs1 + neutral vs1 = entail vs + contradict vs + neutral vs + 1"
    using bump_vote_ok by blast
  have step: "single_loop self q (p # ps) vs ds
                = single_loop self q ps vs1 (ds @ [single_detail p ?sc ?vote])"
    using t b by (simp add: Let_def)
  from Cons.prems have "\<forall>p\<in>set ps. ''text'' \<in> dom p" by simp
  from Cons.IH [OF this, of vs1 "ds @ [single_detail p ?sc ?vote]"]
  show ?case
    unfolding step using s t by auto
qed

text \<open>
  C3. For every query and every list of passages that each have a text, single-mode
  verification returns a result whose three vote counts add up to the number of passages,
  whose conflict flag is (entail > 0 and contradict > 0), whose support and contradiction
  strengths are the entail and contradict counts divided by max(1, number of passages),
  and whose details hold exactly one record per passage, in the order of the passages.
\<close>

theorem analyze_single_result:
  assumes "\<forall>p\<in>set passages. ''text'' \<in> dom p"
  shows "\<exists>r. analyze_single self query passages = Inr r
     \<and> entail (votes r) + contradict (votes r) + neutral (votes r) = length passages
     \<and> conflict r = (entail (votes r) > 0 \<and> contradict (votes r) > 0)
     \<and> support_strength r = real (entail (votes r)) / real (max 1 (length passages))
     \<and> contradiction_strength r = real (contradict (votes r)) / real (max 1 (length passages))
     \<and> length (details r) = length passages
     \<and> details r = map (\<lambda>p. single_detail p (nli self (the (p ''text'')) query)
                                 (vote_from_score self (nli self (the (p ''text'')) query))) passages"
proof -
  from single_loop_ok [OF assms, of self query "\<lparr>entail = 0, contradict = 0, neutral = 0\<rparr>" "[]"]
  obtain vs' where
    l: "single_loop self query passages \<lparr>entail = 0, contradict = 0, neutral = 0\<rparr> [] =
       Inr (vs', map (\<lambda>p. single_detail p (nli self (the (p ''text'')) query)
                                 (vote_from_score self (nli self (the (p ''text'')) query))) passages)"
    and c: "entail vs' + contradict vs' + neutral vs' = length passages"
    by auto
  show ?thesis
    unfolding analyze_single_def l using c by simp
qed

theorem analyze_single_result_witness:
  "''text'' \<in> dom paris_passage \<and> ''text'' \<in> dom rome_passage
   \<and> (\<exists>r. analyze_single entailing_verifier ''Paris is the capital of France''
             [paris_passage, rome_passage] = Inr r
        \<and> entail (votes r) + contradict (votes r) + neutral (votes r) = 2
        \<and> length (details r) = 2
        \<and> map d_text (details r)
            = [PStr ''Paris is the capital of France.'', PStr ''Rome is the capital of Italy.''])"
proof -
  have h: "\<forall>p\<in>set [paris_passage, rome_passage]. ''text'' \<in> dom p"
    by (simp add: paris_passage_def rome_passage_def)
  from analyze_single_result [OF h, of entailing_verifier "''Paris is the capital of France''"]
  obtain r where
    "analyze_single entailing_verifier ''Paris is the capital of France''
             [paris_passage, rome_passage] = Inr r"
    "entail (votes r) + contradict (votes r) + neutral (votes r) = 2"
    "length (details r) = 2"
    "details r = map (\<lambda>p. single_detail p (nli entailing_verifier (the (p ''text'')) ''Paris is the capital of France'')
                                 (vote_from_score entailing_verifier (nli entailing_verifier (the (p ''text'')) ''Paris is the capital of France''))) [paris_passage, rome_passage]"
    by auto
  then show ?thesis
    using h by (simp add: single_detail_def dict_get_def paris_passage_def rome_passage_def)
qed

lemma single_loop_votes:
  "single_loop self q ps vs ds = Inr (vs', ds') \<Longrightarrow>
   \<forall>d\<in>set ds. d_vote d = vote_from_score self (d_nli d) \<Longrightarrow>
   \<forall>d\<in>set ds'. d_vote d = vote_from_score self (d_nli d)"
proof (induction ps arbitrary: vs ds)
  case Nil
  then show ?case by simp
next
  case (Cons p ps)
  from Cons.prems(1) obtain t vs1 where t: "p ''text'' = Some t"
    and b: "bump_vote vs (vote_from_score self (nli self t q)) = Inr vs1"
    and l: "single_loop self q ps vs1
              (ds @ [single_detail p (nli self t q) (vote_from_score self (nli self t q))])
            = Inr (vs', ds')"
    by (auto simp: Let_def split: option.splits sum.splits)
  have "\<forall>d\<in>set (ds @ [single_detail p (nli self t q) (vote_from_score self (nli self t q))]).
          d_vote d = vote_from_score self (d_nli d)"
    using Cons.prems(2) by (simp add: single_detail_def)
  from Cons.IH [OF l this] show ?case .
qed

lemma analyze_single_votes:
  "analyze_single self query passages = Inr r \<Longrightarrow>
     \<forall>d\<in>set (details r). d_vote d = vote_from_score self (d_nli d)"
proof -
  assume a: "analyze_single self query passages = Inr r"
  then obtain vs ds where
    l: "single_loop self query passages \<lparr>entail = 0, contradict = 0, neutral = 0\<rparr> [] = Inr (vs, ds)"
    and d: "details r = ds"
    by (auto simp: analyze_single_def split: sum.splits prod.splits)
  from single_loop_votes [OF l] d show ?thesis by simp
qed

lemma analyze_multi_votes:
  "analyze_multi self query passages = Inr r \<Longrightarrow>
     \<forall>d\<in>set (m_details r). m_vote d = vote_from_score self (m_nli d)"
  by (auto simp: analyze_multi_def Let_def split: sum.splits)

lemma multi_example:
  "analyze_multi entailing_verifier ''Paris is the capital of France''
       [paris_passage, rome_passage]
     = Inr \<lparr>m_votes = \<lparr>entail = 1, contradict = 0, neutral = 0\<rparr>,
            m_conflict = False, m_support_strength = 1, m_contradiction_strength = 0,
            m_details = [\<lparr>m_mode = ''multi'',
                          m_text = ''Paris is the capital of France. Rome is the capital of Italy.'',
                          m_nli = \<lparr>contradiction = 0.02, neutral_score = 0.08, entailment = 0.9\<rparr>,
                          m_vote = ''entail''\<rparr>]\<rparr>"
  by (simp add: analyze_multi_def py_prefix_def entailing_verifier_def paris_passage_def
        rome_passage_def dict_get_def vote_from_score_def bump_vote_def Let_def)

text \<open>
  C2. The vote rule returns contradict exactly when c >= thr_con and c > e, entail exactly
  when e >= thr_ent and e > c, and neutral in every other case. Both modes use it: every
  vote recorded in the details of a single-mode or a multi-mode result is the rule applied
  to the scores recorded with it.
\<close>

theorem vote_rule:
  "(vote_from_score self sc = ''contradict'' \<longleftrightarrow>
      contradiction sc \<ge> thr_con self \<and> contradiction sc > entailment sc)
   \<and> (vote_from_score self sc = ''entail'' \<longleftrightarrow>
      entailment sc \<ge> thr_ent self \<and> entailment sc > contradiction sc)
   \<and> (vote_from_score self sc = ''neutral'' \<longleftrightarrow>
      \<not> (contradiction sc \<ge> thr_con self \<and> contradiction sc > entailment sc)
      \<and> \<not> (entailment sc \<ge> thr_ent self \<and> entailment sc > contradiction sc))
   \<and> (\<forall>r. analyze_single self query passages = Inr r \<longrightarrow>
          (\<forall>d\<in>set (details r). d_vote d = vote_from_score self (d_nli d)))
   \<and> (\<forall>r. analyze_multi self query passages = Inr r \<longrightarrow>
          (\<forall>d\<in>set (m_details r). m_vote d = vote_from_score self (m_nli d)))"
  using analyze_single_votes [of self query passages]
        analyze_multi_votes [of self query passages]
  by (auto simp: vote_from_score_def Let_def)

theorem vote_rule_witness:
  "vote_from_score entailing_verifier
     \<lparr>contradiction = 0.02, neutral_score = 0.08, entailment = 0.9\<rparr> = ''entail''
   \<and> vote_from_score entailing_verifier
     \<lparr>contradiction = 0.5, neutral_score = 0.1, entailment = 0.4\<rparr> = ''neutral''
   \<and> (\<exists>r. analyze_multi entailing_verifier ''Paris is the capital of France''
             [paris_passage, rome_passage] = Inr r
        \<and> map m_vote (m_details r) = [''entail''])"
proof -
  let ?sc = "\<lparr>contradiction = 0.02, neutral_score = 0.08, entailment = 0.9\<rparr>"
  note t = vote_rule [of entailing_verifier ?sc "''Paris is the capital of France''"
                         "[paris_passage, rome_passage]"]
  from t have a: "vote_from_score entailing_verifier ?sc = ''entail''"
    by (simp add: entailing_verifier_def)
  from vote_rule [of entailing_verifier
          "\<lparr>contradiction = 0.5, neutral_score = 0.1, entailment = 0.4\<rparr>"]
  have b: "vote_from_score entailing_verifier
             \<lparr>contradiction = 0.5, neutral_score = 0.1, entailment = 0.4\<rparr> = ''neutral''"
    by (simp add: entailing_verifier_def)
  from t multi_example a
  have "\<exists>r. analyze_multi entailing_verifier ''Paris is the capital of France''
             [paris_passage, rome_passage] = Inr r
        \<and> map m_vote (m_details r) = [''entail'']"
    by simp
  with a b show ?thesis by simp
qed

section \<open>Metrics aggregator: properties\<close>

lemma metric_vals_filter:
  "metric_vals k results = map (\<lambda>r. the (r k)) (filter (\<lambda>r. k \<in> dom r) results)"
  by (simp add: metric_vals_def map_filter_def dom_def comp_def)

lemma aggregate_loop_lookup:
  "aggregate_loop ks results out k =
     (if k \<in> set ks \<and> metric_vals k results \<noteq> []
      then Some (sum_list (metric_vals k results) / real (length (metric_vals k results)))
      else out k)"
  by (induction ks arbitrary: out) (auto simp: Let_def)

text \<open>
  C9. For each tracked field (acc, hallucination, self_consistency) the aggregator returns
  the arithmetic mean over exactly the rows in which the field is present; a field present
  in no row, and any other field, is absent from the result. The empty list gives the empty
  mapping, and the three rows {acc: 1.0}, {acc: 0.0}, {hallucination: 1.0} give
  {acc: 0.5, hallucination: 1.0}.
\<close>

theorem aggregate_mean:
  "aggregate results k =
      (let rows = filter (\<lambda>r. k \<in> dom r) results
       in if k \<in> {''acc'', ''hallucination'', ''self_consistency''} \<and> rows \<noteq> []
          then Some (sum_list (map (\<lambda>r. the (r k)) rows) / real (length rows))
          else None)
   \<and> aggregate [] = Map.empty
   \<and> aggregate [[''acc'' \<mapsto> 1.0], [''acc'' \<mapsto> 0.0], [''hallucination'' \<mapsto> 1.0]]
       = [''acc'' \<mapsto> 0.5, ''hallucination'' \<mapsto> 1.0]"
proof (intro conjI)
  show "aggregate results k =
      (let rows = filter (\<lambda>r. k \<in> dom r) results
       in if k \<in> {''acc'', ''hallucination'', ''self_consistency''} \<and> rows \<noteq> []
          then Some (sum_list (map (\<lambda>r. the (r k)) rows) / real (length rows))
          else None)"
  proof (cases "results = []")
    case True
    then show ?thesis by (simp add: aggregate_def)
  next
    case False
    then show ?thesis
      by (simp add: aggregate_def aggregate_loop_lookup metric_vals_filter Let_def)
  qed
  show "aggregate [] = Map.empty" by (simp add: aggregate_def)
  show "aggregate [[''acc'' \<mapsto> 1.0], [''acc'' \<mapsto> 0.0], [''hallucination'' \<mapsto> 1.0]]
       = [''acc'' \<mapsto> 0.5, ''hallucination'' \<mapsto> 1.0]"
    by (simp add: aggregate_def metric_vals_def map_filter_def Let_def)
qed

theorem aggregate_mean_witness:
  "aggregate [[''acc'' \<mapsto> 1, ''hallucination'' \<mapsto> 0], [''hallucination'' \<mapsto> 1],
              [''acc'' \<mapsto> 0, ''self_consistency'' \<mapsto> 0.8], [''acc'' \<mapsto> 1]] ''acc'' = Some (2 / 3)
   \<and> aggregate [[''pred'' \<mapsto> 1]] ''pred'' = None"
  using aggregate_mean [of "[[''acc'' \<mapsto> 1, ''hallucination'' \<mapsto> 0], [''hallucination'' \<mapsto> 1],
              [''acc'' \<mapsto> 0, ''self_consistency'' \<mapsto> 0.8], [''acc'' \<mapsto> 1]]" "''acc''"]
        aggregate_mean [of "[[''pred'' \<mapsto> 1]]" "''pred''"]
  by (simp add: Let_def)

section \<open>Poison injector: properties\<close>

lemma poison_loop_frame:
  assumes step: "\<And>out i out'. step out i = Inr out' \<Longrightarrow>
                   i < length out \<and> (\<exists>q. out' = out[i := q] \<and> R (out ! i) q)"
    and trans: "\<And>p q r. R p q \<Longrightarrow> R q r \<Longrightarrow> R p r"
  shows "poison_loop step out idxs = Inr out' \<Longrightarrow>
           length out' = length out
           \<and> (\<forall>i\<in>set idxs. i < length out \<and> R (out ! i) (out' ! i))
           \<and> (\<forall>j<length out. j \<notin> set idxs \<longrightarrow> out' ! j = out ! j)"
proof (induction idxs arbitrary: out)
  case Nil
  then show ?case by simp
next
  case (Cons i idxs)
  from Cons.prems obtain out1 where s1: "step out i = Inr out1"
    and l1: "poison_loop step out1 idxs = Inr out'"
    by (auto split: sum.splits)
  from step [OF s1] obtain q where i: "i < length out" and o1: "out1 = out[i := q]"
    and r: "R (out ! i) q" by blast
  from Cons.IH [OF l1] have len: "length out' = length out1"
    and sel: "\<forall>j\<in>set idxs. j < length out1 \<and> R (out1 ! j) (out' ! j)"
    and uns: "\<forall>j<length out1. j \<notin> set idxs \<longrightarrow> out' ! j = out1 ! j"
    by auto
  have len1: "length out1 = length out" using o1 by simp
  have "R (out ! j) (out' ! j)" if j: "j \<in> set (i # idxs)" for j
  proof (cases "j \<in> set idxs")
    case True
    with sel have rj: "R (out1 ! j) (out' ! j)" by blast
    show ?thesis
    proof (cases "j = i")
      case True
      with rj o1 i have "R q (out' ! i)" by simp
      with r True show ?thesis using trans by blast
    next
      case False
      with rj o1 show ?thesis by simp
    qed
  next
    case False
    with j have ji: "j = i" by simp
    with False uns i len1 have "out' ! i = out1 ! i" by simp
    with o1 i r ji show ?thesis by simp
  qed
  moreover have "j < length out" if "j \<in> set (i # idxs)" for j
    using that sel i len1 by auto
  moreover have "out' ! j = out ! j" if "j < length out" "j \<notin> set (i # idxs)" for j
    using that uns len1 o1 by simp
  ultimately show ?case using len len1 by simp
qed

lemma poison_loop_succeeds:
  assumes step: "\<And>out i. i < length out \<Longrightarrow> \<forall>p\<in>set out. W p \<Longrightarrow>
                   \<exists>out'. step out i = Inr out' \<and> length out' = length out \<and> (\<forall>p\<in>set out'. W p)"
  shows "\<forall>i\<in>set idxs. i < length out \<Longrightarrow> \<forall>p\<in>set out. W p \<Longrightarrow>
           \<exists>out'. poison_loop step out idxs = Inr out'"
proof (induction idxs arbitrary: out)
  case Nil
  then show ?case by simp
next
  case (Cons i idxs)
  from Cons.prems have "i < length out" by simp
  from step [OF this Cons.prems(2)] obtain out1 where s1: "step out i = Inr out1"
    and l: "length out1 = length out" and w: "\<forall>p\<in>set out1. W p" by blast
  from Cons.prems l have "\<forall>i\<in>set idxs. i < length out1" by simp
  from Cons.IH [OF this w] show ?case using s1 by simp
qed

lemma poison_retrieved_at_step:
  "poison_retrieved_at mcp out i = Inr out' \<Longrightarrow>
     i < length out \<and> (\<exists>q. out' = out[i := q] \<and>
        (q ''is_poison'' = Some (PBool True) \<and> q ''source'' = Some (PStr ''poison'')
         \<and> (\<forall>k. k \<notin> {''text'', ''is_poison'', ''source'', ''doc_id''} \<longrightarrow> q k = (out ! i) k)))"
  by (auto simp: poison_retrieved_at_def Let_def split: if_splits option.splits pyval.splits)

lemma poison_corpus_at_step:
  "poison_corpus_at mcp out i = Inr out' \<Longrightarrow>
     i < length out \<and> (\<exists>q. out' = out[i := q] \<and>
        (q ''is_poison'' = Some (PStr ''1'')
         \<and> (\<forall>k. k \<notin> {''text'', ''is_poison'', ''doc_id''} \<longrightarrow> q k = (out ! i) k)))"
  by (auto simp: poison_corpus_at_def Let_def split: if_splits option.splits pyval.splits)

lemma set_list_update_W:
  "\<forall>p\<in>set out. W p \<Longrightarrow> W q \<Longrightarrow> \<forall>p\<in>set (out[i := q]). W p"
  by (metis insert_iff set_update_subset_insert subsetD)

lemma poison_retrieved_at_succeeds:
  assumes "i < length out"
    and "\<forall>p\<in>set out. (\<exists>t. p ''text'' = Some (PStr t)) \<and> (\<exists>d. p ''doc_id'' = Some (PStr d))"
  shows "\<exists>out'. poison_retrieved_at mcp out i = Inr out' \<and> length out' = length out
           \<and> (\<forall>p\<in>set out'. (\<exists>t. p ''text'' = Some (PStr t)) \<and> (\<exists>d. p ''doc_id'' = Some (PStr d)))"
proof -
  from assms have "(\<exists>t. (out ! i) ''text'' = Some (PStr t)) \<and> (\<exists>d. (out ! i) ''doc_id'' = Some (PStr d))"
    by simp
  then obtain t d where t: "(out ! i) ''text'' = Some (PStr t)" and d: "(out ! i) ''doc_id'' = Some (PStr d)"
    by blast
  let ?q = "(out ! i)(''text'' \<mapsto> PStr (mcp t), ''is_poison'' \<mapsto> PBool True,
                     ''source'' \<mapsto> PStr ''poison'', ''doc_id'' \<mapsto> PStr (d @ ''__POISON''))"
  have r: "poison_retrieved_at mcp out i = Inr (out[i := ?q])"
    using assms(1) t d by (simp add: poison_retrieved_at_def Let_def)
  have "(\<exists>t. ?q ''text'' = Some (PStr t)) \<and> (\<exists>d. ?q ''doc_id'' = Some (PStr d))" by simp
  then have w: "\<forall>p\<in>set (out[i := ?q]). (\<exists>t. p ''text'' = Some (PStr t)) \<and> (\<exists>d. p ''doc_id'' = Some (PStr d))"
    by (rule set_list_update_W [where W = "\<lambda>p. (\<exists>t. p ''text'' = Some (PStr t)) \<and> (\<exists>d. p ''doc_id'' = Some (PStr d))", OF assms(2)])
  show ?thesis
    by (intro exI [of _ "out[i := ?q]"] conjI) (rule r, rule length_list_update, rule w)
qed

lemma poison_corpus_at_succeeds:
  assumes "i < length out"
    and "\<forall>p\<in>set out. (\<forall>b. p ''text'' \<noteq> Some (PBool b)) \<and> (\<forall>b. p ''doc_id'' \<noteq> Some (PBool b))"
  shows "\<exists>out'. poison_corpus_at mcp out i = Inr out' \<and> length out' = length out
           \<and> (\<forall>p\<in>set out'. (\<forall>b. p ''text'' \<noteq> Some (PBool b)) \<and> (\<forall>b. p ''doc_id'' \<noteq> Some (PBool b)))"
proof -
  from assms have w: "(\<forall>b. (out ! i) ''text'' \<noteq> Some (PBool b)) \<and> (\<forall>b. (out ! i) ''doc_id'' \<noteq> Some (PBool b))"
    by simp
  obtain t where t: "dict_get (out ! i) ''text'' (PStr '''') = PStr t"
    using w by (cases "dict_get (out ! i) ''text'' (PStr '''')") (auto simp: dict_get_def split: option.splits)
  obtain d where d: "dict_get (out ! i) ''doc_id'' (PStr '''') = PStr d"
    using w by (cases "dict_get (out ! i) ''doc_id'' (PStr '''')") (auto simp: dict_get_def split: option.splits)
  let ?q = "(out ! i)(''text'' \<mapsto> PStr (mcp t), ''is_poison'' \<mapsto> PStr ''1'',
                     ''doc_id'' \<mapsto> PStr (d @ ''__POISON''))"
  have d': "dict_get ((out ! i)(''text'' \<mapsto> PStr (mcp t), ''is_poison'' \<mapsto> PStr ''1'')) ''doc_id'' (PStr '''') = PStr d"
    using d by (simp add: dict_get_def)
  have r: "poison_corpus_at mcp out i = Inr (out[i := ?q])"
    using assms(1) t d' by (simp add: poison_corpus_at_def Let_def)
  have "(\<forall>b. ?q ''text'' \<noteq> Some (PBool b)) \<and> (\<forall>b. ?q ''doc_id'' \<noteq> Some (PBool b))" by simp
  then have w: "\<forall>p\<in>set (out[i := ?q]). (\<forall>b. p ''text'' \<noteq> Some (PBool b)) \<and> (\<forall>b. p ''doc_id'' \<noteq> Some (PBool b))"
    by (rule set_list_update_W [where W = "\<lambda>p. (\<forall>b. p ''text'' \<noteq> Some (PBool b)) \<and> (\<forall>b. p ''doc_id'' \<noteq> Some (PBool b))", OF assms(2)])
  show ?thesis
    by (intro exI [of _ "out[i := ?q]"] conjI) (rule r, rule length_list_update, rule w)
qed

lemma first_k_sampler_ok: "draws_without_replacement first_k_sampler"
  by (auto simp: draws_without_replacement_def first_k_sampler_def)




lemma inject_frame:
  assumes "inject_synthetic_poison sample mcp retrieved r sd = Inr out"
  shows "length out = length retrieved
     \<and> (\<forall>i\<in>set (inject_idxs sample (length retrieved) r sd). i < length retrieved
           \<and> (out ! i) ''is_poison'' = Some (PBool True)
           \<and> (out ! i) ''source'' = Some (PStr ''poison'')
           \<and> (\<forall>k. k \<notin> {''text'', ''is_poison'', ''source'', ''doc_id''} \<longrightarrow> (out ! i) k = (retrieved ! i) k))
     \<and> (\<forall>j<length retrieved. j \<notin> set (inject_idxs sample (length retrieved) r sd) \<longrightarrow>
           out ! j = (retrieved ! j)(''is_poison'' \<mapsto> PBool False))"
proof -
  let ?out0 = "map (\<lambda>p. p(''is_poison'' \<mapsto> PBool False)) retrieved"
  let ?idxs = "inject_idxs sample (length retrieved) r sd"
  let ?R = "\<lambda>p q. q ''is_poison'' = Some (PBool True) \<and> q ''source'' = Some (PStr ''poison'')
         \<and> (\<forall>k. k \<notin> {''text'', ''is_poison'', ''source'', ''doc_id''} \<longrightarrow> q k = p k)"
  from assms have l: "poison_loop (poison_retrieved_at mcp) ?out0 ?idxs = Inr out"
    by (simp add: inject_synthetic_poison_def Let_def)
  have "length out = length ?out0
           \<and> (\<forall>i\<in>set ?idxs. i < length ?out0 \<and> ?R (?out0 ! i) (out ! i))
           \<and> (\<forall>j<length ?out0. j \<notin> set ?idxs \<longrightarrow> out ! j = ?out0 ! j)"
    by (rule poison_loop_frame [where R = ?R and step = "poison_retrieved_at mcp", OF _ _ l])
       (use poison_retrieved_at_step in blast, simp)
  then show ?thesis by auto
qed

lemma inject_succeeds:
  assumes "\<forall>i\<in>set (inject_idxs sample (length retrieved) r sd). i < length retrieved"
    and "\<forall>p\<in>set retrieved. (\<exists>t. p ''text'' = Some (PStr t)) \<and> (\<exists>d. p ''doc_id'' = Some (PStr d))"
  shows "\<exists>out. inject_synthetic_poison sample mcp retrieved r sd = Inr out"
proof -
  let ?out0 = "map (\<lambda>p. p(''is_poison'' \<mapsto> PBool False)) retrieved"
  let ?W = "\<lambda>p::passage. (\<exists>t. p ''text'' = Some (PStr t)) \<and> (\<exists>d. p ''doc_id'' = Some (PStr d))"
  have w: "\<forall>p\<in>set ?out0. ?W p" using assms(2) by auto
  have i: "\<forall>i\<in>set (inject_idxs sample (length ?out0) r sd). i < length ?out0"
    using assms(1) by simp
  have "\<exists>out'. poison_loop (poison_retrieved_at mcp) ?out0 (inject_idxs sample (length ?out0) r sd) = Inr out'"
    by (rule poison_loop_succeeds [where W = ?W, OF _ i w]) (rule poison_retrieved_at_succeeds)
  then show ?thesis by (simp add: inject_synthetic_poison_def Let_def)
qed

lemma sample_size_le: "nat (max 0 (min a (int n))) \<le> n"
  by arith

lemma inject_idxs_contract:
  assumes "draws_without_replacement sample"
  shows "set (inject_idxs sample n r sd) \<subseteq> {..<n} \<and> distinct (inject_idxs sample n r sd)"
  using assms sample_size_le [of "max 1 (py_int (real n * r))" n]
  unfolding draws_without_replacement_def inject_idxs_def Let_def by blast

lemma corpus_idxs_contract:
  assumes "draws_without_replacement sample"
  shows "set (corpus_idxs sample n r sd) \<subseteq> {..<n} \<and> distinct (corpus_idxs sample n r sd)"
  using assms sample_size_le [of "py_int (real n * r)" n]
  unfolding draws_without_replacement_def corpus_idxs_def Let_def by blast

lemma corpus_frame:
  assumes "Poisoner_apply_to_corpus sample mcp self corpus = Inr out" and "0 < rate self"
  shows "length out = length corpus
     \<and> (\<forall>i\<in>set (corpus_idxs sample (length corpus) (rate self) (seed self)). i < length corpus
           \<and> (out ! i) ''is_poison'' = Some (PStr ''1'')
           \<and> (\<forall>k. k \<notin> {''text'', ''is_poison'', ''doc_id''} \<longrightarrow> (out ! i) k = (corpus ! i) k))
     \<and> (\<forall>j<length corpus. j \<notin> set (corpus_idxs sample (length corpus) (rate self) (seed self)) \<longrightarrow>
           out ! j = corpus ! j)"
proof -
  let ?idxs = "corpus_idxs sample (length corpus) (rate self) (seed self)"
  let ?R = "\<lambda>p q. q ''is_poison'' = Some (PStr ''1'')
         \<and> (\<forall>k. k \<notin> {''text'', ''is_poison'', ''doc_id''} \<longrightarrow> q k = p k)"
  from assms have l: "poison_loop (poison_corpus_at mcp) corpus ?idxs = Inr out"
    by (simp add: Poisoner_apply_to_corpus_def Let_def)
  show ?thesis
    by (rule poison_loop_frame [where R = ?R and step = "poison_corpus_at mcp", OF _ _ l])
       (use poison_corpus_at_step in blast, simp)
qed

lemma corpus_succeeds:
  assumes "draws_without_replacement sample"
    and "\<forall>p\<in>set corpus. (\<forall>b. p ''text'' \<noteq> Some (PBool b)) \<and> (\<forall>b. p ''doc_id'' \<noteq> Some (PBool b))"
  shows "\<exists>out. Poisoner_apply_to_corpus sample mcp self corpus = Inr out"
proof (cases "rate self \<le> 0")
  case True
  then show ?thesis by (simp add: Poisoner_apply_to_corpus_def)
next
  case False
  let ?W = "\<lambda>p::passage. (\<forall>b. p ''text'' \<noteq> Some (PBool b)) \<and> (\<forall>b. p ''doc_id'' \<noteq> Some (PBool b))"
  have i: "\<forall>i\<in>set (corpus_idxs sample (length corpus) (rate self) (seed self)). i < length corpus"
    using corpus_idxs_contract [OF assms(1)] by blast
  have "\<exists>out'. poison_loop (poison_corpus_at mcp) corpus
                  (corpus_idxs sample (length corpus) (rate self) (seed self)) = Inr out'"
    by (rule poison_loop_succeeds [where W = ?W, OF _ i assms(2)]) (rule poison_corpus_at_succeeds)
  with False show ?thesis by (simp add: Poisoner_apply_to_corpus_def Let_def)
qed

lemma inject_succeeds':
  assumes "draws_without_replacement sample"
    and "\<forall>p\<in>set retrieved. (\<exists>t. p ''text'' = Some (PStr t)) \<and> (\<exists>d. p ''doc_id'' = Some (PStr d))"
  shows "\<exists>out. inject_synthetic_poison sample mcp retrieved r sd = Inr out"
  using inject_succeeds [OF _ assms(2)] inject_idxs_contract [OF assms(1)] by blast


lemma paris_rome_wf:
  "\<forall>p\<in>set [paris_passage, rome_passage].
      (\<exists>t. p ''text'' = Some (PStr t)) \<and> (\<exists>d. p ''doc_id'' = Some (PStr d))"
  by (simp add: paris_passage_def rome_passage_def)

lemma inject_idxs_half: "inject_idxs first_k_sampler 2 (1/2) 7 = [0]"
  by (simp add: inject_idxs_def first_k_sampler_def py_int_def)

lemma inject_idxs_half_Suc: "inject_idxs first_k_sampler (Suc (Suc 0)) (1/2) 7 = [0]"
  using inject_idxs_half by (simp add: numeral_2_eq_2)





text \<open>
  C6 (as amended). An unknown strategy raises no error anywhere. The constructor stores any
  strategy name; with a strategy other than contradictory_passage the retrieval-set
  application returns the input passages themselves, whatever the rate; the corpus-level
  application never reads the strategy.
\<close>

theorem unknown_strategy_no_error:
  "strategy (Poisoner st r sd) = st
   \<and> (strategy self \<noteq> ''contradictory_passage'' \<longrightarrow>
        Poisoner_apply sample mcp self retrieved = Inr retrieved)
   \<and> Poisoner_apply_to_corpus sample mcp (self\<lparr>strategy := st\<rparr>) corpus
        = Poisoner_apply_to_corpus sample mcp self corpus"
  by (simp add: Poisoner_def Poisoner_apply_def Poisoner_apply_to_corpus_def)

theorem unknown_strategy_no_error_witness:
  "Poisoner_apply first_k_sampler make_contradictory_passage (Poisoner ''shuffle_text'' (1/2) 7)
       [paris_passage, rome_passage] = Inr [paris_passage, rome_passage]"
  using unknown_strategy_no_error [of "''shuffle_text''" "1/2" 7 "Poisoner ''shuffle_text'' (1/2) 7"
          first_k_sampler make_contradictory_passage "[paris_passage, rome_passage]"]
  by simp

text \<open>
  C6 as stated fails: a poisoner built with the unknown strategy shuffle_text and rate 1/2
  is constructed without error and returns the two input passages unchanged.
\<close>

theorem unknown_strategy_silent:
  "0 < rate (Poisoner ''shuffle_text'' (1/2) 7)
   \<and> strategy (Poisoner ''shuffle_text'' (1/2) 7) \<noteq> ''contradictory_passage''
   \<and> Poisoner_apply first_k_sampler make_contradictory_passage (Poisoner ''shuffle_text'' (1/2) 7)
       [paris_passage, rome_passage] = Inr [paris_passage, rome_passage]"
  by (simp add: Poisoner_def Poisoner_apply_def)

text \<open>
  C10. The two application points mark a selected passage differently. Whenever the
  retrieval-set application (rate > 0, strategy contradictory_passage) returns, every
  selected passage has \<open>is_poison\<close> equal to the boolean True and \<open>source\<close> equal to
  the string poison. Whenever the corpus-level application (rate > 0) returns, every
  selected passage has \<open>is_poison\<close> equal to the string 1 and the \<open>source\<close> entry of
  its input passage, absent when that has none. Both return when the sampler draws without
  replacement and no text or doc_id is a non-string (the retrieval-set application needs
  both present).
\<close>

theorem poison_markers_differ:
  "(\<forall>out. 0 < rate self \<and> strategy self = ''contradictory_passage''
          \<and> Poisoner_apply sample mcp self retrieved = Inr out \<longrightarrow>
       (\<forall>i\<in>set (inject_idxs sample (length retrieved) (rate self) (seed self)).
           (out ! i) ''is_poison'' = Some (PBool True)
           \<and> (out ! i) ''source'' = Some (PStr ''poison'')))
   \<and> (\<forall>out. 0 < rate self \<and> Poisoner_apply_to_corpus sample mcp self corpus = Inr out \<longrightarrow>
       (\<forall>i\<in>set (corpus_idxs sample (length corpus) (rate self) (seed self)).
           (out ! i) ''is_poison'' = Some (PStr ''1'')
           \<and> (out ! i) ''source'' = (corpus ! i) ''source''))
   \<and> (draws_without_replacement sample
        \<and> (\<forall>p\<in>set retrieved. (\<exists>t. p ''text'' = Some (PStr t)) \<and> (\<exists>d. p ''doc_id'' = Some (PStr d)))
       \<longrightarrow> (\<exists>out. Poisoner_apply sample mcp self retrieved = Inr out))
   \<and> (draws_without_replacement sample
        \<and> (\<forall>p\<in>set corpus. (\<forall>b. p ''text'' \<noteq> Some (PBool b)) \<and> (\<forall>b. p ''doc_id'' \<noteq> Some (PBool b)))
       \<longrightarrow> (\<exists>out. Poisoner_apply_to_corpus sample mcp self corpus = Inr out))"
proof (intro conjI allI impI)
  fix out
  assume a: "0 < rate self \<and> strategy self = ''contradictory_passage''
          \<and> Poisoner_apply sample mcp self retrieved = Inr out"
  then have "inject_synthetic_poison sample mcp retrieved (rate self) (seed self) = Inr out"
    by (auto simp: Poisoner_apply_def split: if_splits)
  from inject_frame [OF this]
  show "\<forall>i\<in>set (inject_idxs sample (length retrieved) (rate self) (seed self)).
           (out ! i) ''is_poison'' = Some (PBool True)
           \<and> (out ! i) ''source'' = Some (PStr ''poison'')"
    by blast
next
  fix out
  assume a: "0 < rate self \<and> Poisoner_apply_to_corpus sample mcp self corpus = Inr out"
  from corpus_frame [of sample mcp self corpus out] a
  show "\<forall>i\<in>set (corpus_idxs sample (length corpus) (rate self) (seed self)).
           (out ! i) ''is_poison'' = Some (PStr ''1'')
           \<and> (out ! i) ''source'' = (corpus ! i) ''source''"
    by simp
next
  assume a: "draws_without_replacement sample
        \<and> (\<forall>p\<in>set retrieved. (\<exists>t. p ''text'' = Some (PStr t)) \<and> (\<exists>d. p ''doc_id'' = Some (PStr d)))"
  then show "\<exists>out. Poisoner_apply sample mcp self retrieved = Inr out"
    using inject_succeeds' [of sample retrieved mcp "rate self" "seed self"]
    by (simp add: Poisoner_apply_def)
next
  assume a: "draws_without_replacement sample
        \<and> (\<forall>p\<in>set corpus. (\<forall>b. p ''text'' \<noteq> Some (PBool b)) \<and> (\<forall>b. p ''doc_id'' \<noteq> Some (PBool b)))"
  then show "\<exists>out. Poisoner_apply_to_corpus sample mcp self corpus = Inr out"
    using corpus_succeeds [of sample corpus mcp self] by blast
qed

lemma corpus_idxs_half_Suc: "corpus_idxs first_k_sampler (Suc (Suc 0)) (1/2) 7 = [0]"
  by (simp add: corpus_idxs_def first_k_sampler_def py_int_def)

lemma paris_rome_wf_corpus:
  "\<forall>p\<in>set [paris_passage, rome_passage].
      (\<forall>b. p ''text'' \<noteq> Some (PBool b)) \<and> (\<forall>b. p ''doc_id'' \<noteq> Some (PBool b))"
  by (simp add: paris_passage_def rome_passage_def)

theorem poison_markers_differ_witness:
  "(\<exists>out. Poisoner_apply first_k_sampler make_contradictory_passage (Poisoner ''contradictory_passage'' (1/2) 7)
            [paris_passage, rome_passage] = Inr out
        \<and> (out ! 0) ''is_poison'' = Some (PBool True)
        \<and> (out ! 0) ''source'' = Some (PStr ''poison''))
   \<and> (\<exists>out. Poisoner_apply_to_corpus first_k_sampler make_contradictory_passage
            (Poisoner ''contradictory_passage'' (1/2) 7) [paris_passage, rome_passage] = Inr out
        \<and> (out ! 0) ''is_poison'' = Some (PStr ''1'')
        \<and> (out ! 0) ''source'' = None)"
proof -
  let ?P = "Poisoner ''contradictory_passage'' (1/2) 7"
  note t = poison_markers_differ [of ?P first_k_sampler make_contradictory_passage
              "[paris_passage, rome_passage]" "[paris_passage, rome_passage]"]
  have r: "rate ?P = 1/2" "seed ?P = 7" "strategy ?P = ''contradictory_passage''"
    by (simp_all add: Poisoner_def)
  from t first_k_sampler_ok paris_rome_wf
  obtain out1 where o1: "Poisoner_apply first_k_sampler make_contradictory_passage ?P
            [paris_passage, rome_passage] = Inr out1" by blast
  from t first_k_sampler_ok paris_rome_wf_corpus
  obtain out2 where o2: "Poisoner_apply_to_corpus first_k_sampler make_contradictory_passage ?P
            [paris_passage, rome_passage] = Inr out2" by blast
  from t o1 have "(out1 ! 0) ''is_poison'' = Some (PBool True) \<and> (out1 ! 0) ''source'' = Some (PStr ''poison'')"
    by (simp add: r inject_idxs_half_Suc)
  moreover from t o2 have "(out2 ! 0) ''is_poison'' = Some (PStr ''1'') \<and> (out2 ! 0) ''source'' = paris_passage ''source''"
    by (simp add: r corpus_idxs_half_Suc)
  ultimately show ?thesis using o1 o2 by (simp add: paris_passage_def)
qed







section \<open>Evidence fusion: properties\<close>

lemma merge_best_snoc: "merge_best (xs @ [x]) = merge_step (merge_best xs) x"
  by (simp add: merge_best_def)

lemma merge_step_distinct:
  "distinct (map fst best) \<Longrightarrow> distinct (map fst (merge_step best sp))"
  by (simp add: merge_step_def Let_def distinct_update split: option.splits)

lemma merge_best_distinct: "distinct (map fst (merge_best xs))"
proof (induction xs rule: rev_induct)
  case Nil
  show ?case by (simp add: merge_best_def)
next
  case (snoc x xs)
  then show ?case by (simp add: merge_best_snoc merge_step_distinct)
qed

lemma merge_step_lookup:
  "map_of (merge_step best sp) k =
     (if k = passage_key (snd sp)
      then (case map_of best k of
              None \<Rightarrow> Some sp
            | Some b \<Rightarrow> if fst sp > fst b then Some sp else Some b)
      else map_of best k)"
  by (simp add: merge_step_def Let_def update_conv' split: option.splits)

lemma merge_best_None:
  "map_of (merge_best xs) k = None \<longleftrightarrow> (\<forall>sp\<in>set xs. passage_key (snd sp) \<noteq> k)"
proof (induction xs rule: rev_induct)
  case Nil
  show ?case by (simp add: merge_best_def)
next
  case (snoc x xs)
  then show ?case
    by (auto simp: merge_best_snoc merge_step_lookup split: option.splits)
qed

lemma find_snoc:
  "List.find P (xs @ [x]) =
     (case List.find P xs of None \<Rightarrow> (if P x then Some x else None) | Some y \<Rightarrow> Some y)"
  by (induction xs) auto

lemma find_None_I: "(\<And>y. y \<in> set xs \<Longrightarrow> \<not> P y) \<Longrightarrow> List.find P xs = None"
  by (induction xs) auto

lemma merge_best_Some:
  "map_of (merge_best xs) k = Some sp \<Longrightarrow>
     sp \<in> set xs \<and> passage_key (snd sp) = k
     \<and> (\<forall>sp'\<in>set xs. passage_key (snd sp') = k \<longrightarrow> fst sp' \<le> fst sp)
     \<and> List.find (\<lambda>x. passage_key (snd x) = k \<and> fst x = fst sp) xs = Some sp"
proof (induction xs arbitrary: sp rule: rev_induct)
  case Nil
  then show ?case by (simp add: merge_best_def)
next
  case (snoc x xs)
  let ?B = "merge_best xs"
  from snoc.prems have l: "map_of (merge_step ?B x) k = Some sp"
    by (simp add: merge_best_snoc)
  show ?case
  proof (cases "k = passage_key (snd x)")
    case False
    with l have "map_of ?B k = Some sp" by (simp add: merge_step_lookup)
    from snoc.IH [OF this] False show ?thesis
      by (auto simp: find_snoc)
  next
    case True
    show ?thesis
    proof (cases "map_of ?B k")
      case None
      with l True have sp: "sp = x" by (simp add: merge_step_lookup)
      from None have no: "\<forall>sp'\<in>set xs. passage_key (snd sp') \<noteq> k"
        by (simp add: merge_best_None)
      then have "\<not> (passage_key (snd y) = k \<and> fst y = fst x)" if "y \<in> set xs" for y
        using that by blast
      then have "List.find (\<lambda>y. passage_key (snd y) = k \<and> fst y = fst x) xs = None"
        by (rule find_None_I)
      with no sp True show ?thesis by (simp add: find_snoc)
    next
      case (Some b)
      from snoc.IH [OF Some]
      have b: "b \<in> set xs" "passage_key (snd b) = k"
        and ub: "\<forall>sp'\<in>set xs. passage_key (snd sp') = k \<longrightarrow> fst sp' \<le> fst b"
        and fb: "List.find (\<lambda>y. passage_key (snd y) = k \<and> fst y = fst b) xs = Some b"
        by blast+
      show ?thesis
      proof (cases "fst x > fst b")
        case gt: True
        with l True Some have sp: "sp = x" by (simp add: merge_step_lookup)
        have "\<not> (passage_key (snd y) = k \<and> fst y = fst x)" if "y \<in> set xs" for y
          using ub gt that by fastforce
        then have "List.find (\<lambda>y. passage_key (snd y) = k \<and> fst y = fst x) xs = None"
          by (rule find_None_I)
        moreover have "\<forall>sp'\<in>set xs. passage_key (snd sp') = k \<longrightarrow> fst sp' \<le> fst x"
          using ub gt by fastforce
        ultimately show ?thesis using sp True by (simp add: find_snoc)
      next
        case le: False
        with l True Some have sp: "sp = b" by (simp add: merge_step_lookup)
        from le have "fst x \<le> fst b" by simp
        with b ub fb sp show ?thesis by (simp add: find_snoc)
      qed
    qed
  qed
qed

lemma merge_best_entry:
  assumes "e \<in> set (merge_best xs)"
  shows "map_of (merge_best xs) (fst e) = Some (snd e)"
  using map_of_is_SomeI [OF merge_best_distinct, of "fst e" "snd e" xs] assms by simp

lemma merge_best_keys:
  "map (\<lambda>sp. passage_key (snd sp)) (map snd (merge_best xs)) = map fst (merge_best xs)"
proof -
  have "passage_key (snd (snd e)) = fst e" if "e \<in> set (merge_best xs)" for e
    using merge_best_Some [OF merge_best_entry [OF that]] by simp
  then show ?thesis by (simp add: comp_def)
qed

lemma merge_best_length:
  "length (merge_best xs) = card ((\<lambda>sp. passage_key (snd sp)) ` set xs)"
proof -
  have h: "k \<notin> fst ` set (merge_best xs) \<longleftrightarrow> (\<forall>sp\<in>set xs. passage_key (snd sp) \<noteq> k)" for k
    using merge_best_None [of xs k] by (simp only: map_of_eq_None_iff)
  have "fst ` set (merge_best xs) = (\<lambda>sp. passage_key (snd sp)) ` set xs"
  proof (rule set_eqI)
    fix k
    show "k \<in> fst ` set (merge_best xs) \<longleftrightarrow> k \<in> (\<lambda>sp. passage_key (snd sp)) ` set xs"
      using h [of k] unfolding image_iff by metis
  qed
  then have "set (map fst (merge_best xs)) = (\<lambda>sp. passage_key (snd sp)) ` set xs"
    by simp
  then have "card ((\<lambda>sp. passage_key (snd sp)) ` set xs) = card (set (map fst (merge_best xs)))"
    by simp
  also have "\<dots> = length (map fst (merge_best xs))"
    using merge_best_distinct by (rule distinct_card)
  finally show ?thesis by simp
qed

lemma py_prefix_is_take: "\<exists>n. py_prefix k xs = take n xs"
  by (auto simp: py_prefix_def)

lemma py_prefix_length: "0 \<le> k \<Longrightarrow> length (py_prefix k xs) = min (nat k) (length xs)"
  by (simp add: py_prefix_def min.commute)

lemma fuse_members:
  assumes "sp \<in> set (fuse scored k)"
  shows "map_of (merge_best scored) (passage_key (snd sp)) = Some sp"
proof -
  obtain n where "fuse scored k = take n (sort_key (\<lambda>x. - fst x) (map snd (merge_best scored)))"
    unfolding fuse_def using py_prefix_is_take by blast
  with assms have "sp \<in> set (sort_key (\<lambda>x. - fst x) (map snd (merge_best scored)))"
    by (auto dest: in_set_takeD)
  then obtain e where e: "e \<in> set (merge_best scored)" and s: "sp = snd e" by auto
  from merge_best_Some [OF merge_best_entry [OF e]] have "passage_key (snd (snd e)) = fst e"
    by simp
  with merge_best_entry [OF e] s show ?thesis by simp
qed

lemma fuse_distinct: "distinct (map (\<lambda>sp. passage_key (snd sp)) (fuse scored k))"
proof -
  let ?vals = "map snd (merge_best scored)"
  let ?key = "\<lambda>sp::real \<times> passage. passage_key (snd sp)"
  have "distinct (map ?key ?vals)"
    unfolding merge_best_keys by (rule merge_best_distinct)
  moreover have "mset (map ?key (sort_key (\<lambda>x. - fst x) ?vals)) = mset (map ?key ?vals)"
    by (simp only: mset_map mset_sort)
  ultimately have d: "distinct (map ?key (sort_key (\<lambda>x. - fst x) ?vals))"
    using mset_eq_imp_distinct_iff by blast
  obtain n where "fuse scored k = take n (sort_key (\<lambda>x. - fst x) ?vals)"
    unfolding fuse_def using py_prefix_is_take by blast
  then show ?thesis using d by (simp add: take_map [symmetric])
qed

lemma fuse_sorted: "sorted_wrt (\<lambda>a b. fst a \<ge> fst b) (fuse scored k)"
proof -
  let ?vals = "map snd (merge_best scored)"
  have "sorted (map (\<lambda>x. - fst x) (sort_key (\<lambda>x. - fst x) ?vals))"
    by (rule sorted_sort_key)
  then have s: "sorted_wrt (\<lambda>a b. fst a \<ge> fst b) (sort_key (\<lambda>x. - fst x) ?vals)"
    by (simp add: sorted_map)
  obtain n where "fuse scored k = take n (sort_key (\<lambda>x. - fst x) ?vals)"
    unfolding fuse_def using py_prefix_is_take by blast
  then show ?thesis using s by simp
qed

lemma fuse_length:
  "0 \<le> k \<Longrightarrow> length (fuse scored k)
     = min (nat k) (card ((\<lambda>sp. passage_key (snd sp)) ` set scored))"
  by (simp add: fuse_def py_prefix_length merge_best_length)

lemma passage_key_attach: "passage_key (attach_score float_str sp) = passage_key (snd sp)"
  by (simp add: passage_key_def attach_score_def dict_get_def)

lemma fuse_max:
  assumes "sp \<in> set (fuse scored k)"
  shows "sp \<in> set scored
     \<and> fst sp = Max (fst ` {sp' \<in> set scored. passage_key (snd sp') = passage_key (snd sp)})
     \<and> List.find (\<lambda>x. passage_key (snd x) = passage_key (snd sp) \<and> fst x = fst sp) scored
          = Some sp"
proof -
  let ?S = "{sp' \<in> set scored. passage_key (snd sp') = passage_key (snd sp)}"
  from merge_best_Some [OF fuse_members [OF assms]]
  have m: "sp \<in> set scored"
    and ub: "\<forall>sp'\<in>set scored. passage_key (snd sp') = passage_key (snd sp) \<longrightarrow> fst sp' \<le> fst sp"
    and f: "List.find (\<lambda>x. passage_key (snd x) = passage_key (snd sp) \<and> fst x = fst sp) scored
          = Some sp"
    by blast+
  have "Max (fst ` ?S) = fst sp"
  proof (rule Max_eqI)
    show "finite (fst ` ?S)" by simp
    show "y \<le> fst sp" if "y \<in> fst ` ?S" for y using that ub by auto
    show "fst sp \<in> fst ` ?S" using m by simp
  qed
  with m f show ?thesis by simp
qed

text \<open>
  C4. Whatever the two sources return, fusion returns the merged entries with their scores
  attached (as \<open>str(s)\<close>); no composite key (title, sent_id, text) occurs twice in the
  output; every merged entry is an input entry whose score is the maximum score its key
  received across all inputs, and among the entries of that key and score it is the first
  in input order; the merged entries are in descending order of score; and for a limit
  k >= 0 the output has min(k, number of distinct keys) passages, so at most k and all of
  them when there are fewer than k.
\<close>

theorem fusion_result:
  "retrieve float_str self query k
       = map (attach_score float_str) (fuse (collect_scored self query k) k)
   \<and> distinct (map passage_key (retrieve float_str self query k))
   \<and> (\<forall>sp\<in>set (fuse (collect_scored self query k) k).
         sp \<in> set (collect_scored self query k)
         \<and> fst sp = Max (fst ` {sp' \<in> set (collect_scored self query k).
                                passage_key (snd sp') = passage_key (snd sp)})
         \<and> List.find (\<lambda>x. passage_key (snd x) = passage_key (snd sp) \<and> fst x = fst sp)
              (collect_scored self query k) = Some sp)
   \<and> sorted_wrt (\<lambda>a b. fst a \<ge> fst b) (fuse (collect_scored self query k) k)
   \<and> (0 \<le> k \<longrightarrow>
        length (retrieve float_str self query k)
          = min (nat k) (card ((\<lambda>sp. passage_key (snd sp)) ` set (collect_scored self query k))))"
proof (intro conjI ballI impI)
  let ?scored = "collect_scored self query k"
  show "retrieve float_str self query k = map (attach_score float_str) (fuse ?scored k)"
    by (simp add: retrieve_def)
  have "map passage_key (retrieve float_str self query k)
          = map (\<lambda>sp. passage_key (snd sp)) (fuse ?scored k)"
    by (simp add: retrieve_def passage_key_attach comp_def)
  then show "distinct (map passage_key (retrieve float_str self query k))"
    by (simp only: fuse_distinct)
  show "sorted_wrt (\<lambda>a b. fst a \<ge> fst b) (fuse ?scored k)"
    by (rule fuse_sorted)
  show "length (retrieve float_str self query k)
          = min (nat k) (card ((\<lambda>sp. passage_key (snd sp)) ` set ?scored))" if "0 \<le> k"
    using fuse_length [OF that, of ?scored] by (simp add: retrieve_def)
next
  fix sp
  assume a: "sp \<in> set (fuse (collect_scored self query k) k)"
  from fuse_max [OF a]
  show "sp \<in> set (collect_scored self query k)"
    and "fst sp = Max (fst ` {sp' \<in> set (collect_scored self query k).
                                passage_key (snd sp') = passage_key (snd sp)})"
    and "List.find (\<lambda>x. passage_key (snd x) = passage_key (snd sp) \<and> fst x = fst sp)
              (collect_scored self query k) = Some sp"
    by blast+
qed

lemma two_source_scored:
  "collect_scored two_source_retriever q 10
     = [(1, paris_passage), (1 / 2, rome_passage), (2, rome_passage), (7 / 10, paris_passage)]"
  by (simp add: collect_scored_def two_source_retriever_def lexical_source_def dense_source_def)

lemma paris_rome_keys:
  "passage_key paris_passage = (PStr ''Paris'', PStr ''0'', PStr ''Paris is the capital of France.'')"
  "passage_key rome_passage = (PStr ''Rome'', PStr ''0'', PStr ''Rome is the capital of Italy.'')"
  by (simp_all add: passage_key_def dict_get_def paris_passage_def rome_passage_def)

lemma two_source_fuse:
  "fuse [(1, paris_passage), (1 / 2, rome_passage), (2, rome_passage), (7 / 10, paris_passage)] 10
     = [(2, rome_passage), (1, paris_passage)]"
  by (simp add: fuse_def merge_best_def merge_step_def paris_rome_keys py_prefix_def Let_def)

theorem fusion_result_witness:
  "(0::int) \<le> 10
   \<and> retrieve score_str two_source_retriever ''capital'' 10
       = [rome_passage(''score'' \<mapsto> PStr ''2.0''), paris_passage(''score'' \<mapsto> PStr ''1.0'')]
   \<and> length (retrieve score_str two_source_retriever ''capital'' 10) = 2
   \<and> distinct (map passage_key (retrieve score_str two_source_retriever ''capital'' 10))"
proof -
  note t = fusion_result [of score_str two_source_retriever "''capital''" 10]
  from t have "retrieve score_str two_source_retriever ''capital'' 10
       = [rome_passage(''score'' \<mapsto> PStr ''2.0''), paris_passage(''score'' \<mapsto> PStr ''1.0'')]"
    by (simp add: two_source_scored two_source_fuse attach_score_def score_str_def)
  moreover have "length (retrieve score_str two_source_retriever ''capital'' 10) = 2"
  proof -
    have c: "card ((\<lambda>sp. passage_key (snd sp))
                     ` set (collect_scored two_source_retriever ''capital'' 10)) = 2"
      by (simp add: two_source_scored paris_rome_keys insert_commute)
    have "(0::int) \<le> 10" by simp
    with t have "length (retrieve score_str two_source_retriever ''capital'' 10)
          = min (nat 10) (card ((\<lambda>sp. passage_key (snd sp))
                     ` set (collect_scored two_source_retriever ''capital'' 10)))"
      by blast
    with c show ?thesis by simp
  qed
  moreover from t have "distinct (map passage_key (retrieve score_str two_source_retriever ''capital'' 10))"
    by blast
  ultimately show ?thesis by simp
qed

end
